theory Spec2Isabelle
  imports Main
begin

section \<open>Rendered lines (class OutputLine)\<close>

text \<open>
  An \<open>OutputLine\<close> is one rendered row: its text and the closed flag its entry had when
  the line was constructed (\<open>this.entryClosed = entry.isClosed\<close>).  The protected
  back reference to the entry is never read and is left out.
\<close>

record OutputLine =
  content :: string
  entryClosed :: bool

section \<open>The buffer (class OutputBuffer)\<close>

record OutputBuffer =
  lines :: "OutputLine list"
  firstOpenLineIdx :: nat

definition new_OutputBuffer :: OutputBuffer where
  "new_OutputBuffer = \<lparr>lines = [], firstOpenLineIdx = 0\<rparr>"

text \<open>
  The loop of \<open>put\<close>: \<open>i\<close> runs over the indices of the argument \<open>ls\<close>, every line is
  pushed, and the first line of the argument that is not closed stores the loop index
  \<open>i\<close> in \<open>firstOpenLineIdx\<close>.  \<open>checkClosed\<close> is a local of the call.
\<close>

function put_loop :: "OutputLine list \<Rightarrow> nat \<Rightarrow> bool \<Rightarrow> OutputBuffer \<Rightarrow> OutputBuffer" where
  "put_loop ls i checkClosed this =
     (if i < length ls then
        (let l = ls ! i;
             this1 = this\<lparr>lines := lines this @ [l]\<rparr>
         in if checkClosed \<and> \<not> entryClosed l
            then put_loop ls (Suc i) False (this1\<lparr>firstOpenLineIdx := i\<rparr>)
            else put_loop ls (Suc i) checkClosed this1)
      else this)"
  by pat_completeness auto
termination
  by (relation "measure (\<lambda>(ls, i, c, b). length ls - i)") auto

declare put_loop.simps [simp del]

definition put :: "OutputLine list \<Rightarrow> OutputBuffer \<Rightarrow> OutputBuffer" where
  "put ls this = put_loop ls 0 True this"

text \<open>\<open>xs[i]?.content\<close>: the text of the line at index \<open>i\<close>, \<open>undefined\<close> past the end.\<close>

definition content_at :: "OutputLine list \<Rightarrow> nat \<Rightarrow> string option" where
  "content_at xs i = (if i < length xs then Some (content (xs ! i)) else None)"

function findFirstDifferentLine_loop ::
  "OutputLine list \<Rightarrow> OutputLine list \<Rightarrow> nat \<Rightarrow> nat \<Rightarrow> nat option" where
  "findFirstDifferentLine_loop xs ys lim i =
     (if i < lim then
        (if content_at xs i \<noteq> content_at ys i then Some i
         else findFirstDifferentLine_loop xs ys lim (Suc i))
      else None)"
  by pat_completeness auto
termination
  by (relation "measure (\<lambda>(xs, ys, lim, i). lim - i)") auto

declare findFirstDifferentLine_loop.simps [simp del]

text \<open>The result \<open>None\<close> is the source's \<open>null\<close>.\<close>

definition findFirstDifferentLine :: "OutputBuffer \<Rightarrow> OutputBuffer \<Rightarrow> nat option" where
  "findFirstDifferentLine this buff =
     (let lim = max (length (lines this)) (length (lines buff))
      in findFirstDifferentLine_loop (lines this) (lines buff) lim (firstOpenLineIdx this))"

section \<open>Content fields and their text\<close>

text \<open>
  A content field is \<open>Stringifyable | undefined\<close>.  What \<open>getContent\<close> asks of a
  field is its truthiness (\<open>filter((e) => e)\<close>) and its text (\<open>String(e)\<close>): a string
  is falsy exactly when it is empty and is its own text; any other value (a number, a
  boolean, an object with \<open>toString\<close>) is given by these two answers.
\<close>

datatype field = Undefined | Str string | Other bool string

fun truthy :: "field \<Rightarrow> bool" where
  "truthy Undefined = False"
| "truthy (Str s) = (s \<noteq> [])"
| "truthy (Other t s) = t"

fun js_String :: "field \<Rightarrow> string" where
  "js_String Undefined = ''undefined''"
| "js_String (Str s) = s"
| "js_String (Other t s) = s"

text \<open>\<open>Array.prototype.join\<close> on an array of strings.\<close>

fun js_join :: "string list \<Rightarrow> string \<Rightarrow> string" where
  "js_join [] sep = []"
| "js_join [x] sep = x"
| "js_join (x # y # ys) sep = x @ sep @ js_join (y # ys) sep"

text \<open>
  \<open>s.split("\n")\<close>: the pieces of \<open>s\<close> between line feeds; the empty string gives one
  empty piece.
\<close>

fun js_split_nl :: "string \<Rightarrow> string list" where
  "js_split_nl [] = [[]]"
| "js_split_nl (c # cs) =
     (if c = CHR 0x0A then [] # js_split_nl cs
      else (case js_split_nl cs of
              [] \<Rightarrow> [[c]]
            | r # rs \<Rightarrow> (c # r) # rs))"

section \<open>Entries (class OutputEntry)\<close>

text \<open>
  The private fields of an entry.  \<open>isClosed\<close> and \<open>isDeleted\<close> are the fields
  \<open>_isClosed\<close> and \<open>_isDeleted\<close>, read by the getters of the same names;
  \<open>contentMemo = None\<close> is the source's \<open>undefined\<close>.  The \<open>manager\<close> field refers to
  the static class \<open>Output\<close>, whose state the methods below take and return.
\<close>

record OutputEntry =
  content :: "field list"
  separator :: string
  isClosed :: bool
  isDeleted :: bool
  contentMemo :: "OutputLine list option"

definition new_OutputEntry :: "field list \<Rightarrow> OutputEntry" where
  "new_OutputEntry initialContent =
     \<lparr>content = initialContent, separator = '' '', isClosed = False, isDeleted = False,
      contentMemo = None\<rparr>"

definition new_OutputLine :: "OutputEntry \<Rightarrow> string \<Rightarrow> OutputLine" where
  "new_OutputLine entry txt = \<lparr>OutputLine.content = txt, entryClosed = isClosed entry\<rparr>"

section \<open>The coordinator's state (static class Output)\<close>

text \<open>
  \<open>timeouts\<close> holds the delays (in ms) of the callbacks that \<open>_rerender\<close> has handed to
  \<open>setTimeout\<close> and that have not run yet; all of them are the same closure.
\<close>

record Output =
  outEntries :: "OutputEntry list"
  currentBuffer :: OutputBuffer
  isRenderQueued :: bool
  timeouts :: "nat list"

definition new_Output :: Output where
  "new_Output = \<lparr>outEntries = [], currentBuffer = new_OutputBuffer, isRenderQueued = False,
                  timeouts = []\<rparr>"

definition rerender :: "Output \<Rightarrow> Output" where
  "rerender this =
     (if isRenderQueued this then this
      else (this\<lparr>isRenderQueued := True\<rparr>)\<lparr>timeouts := timeouts this @ [25]\<rparr>)"

text \<open>
  The callback given to \<open>setTimeout\<close>.  The module \<open>./throttle\<close> is not part of the
  sources at hand, so \<open>runThrottled\<close> applied to the render closure is a parameter: a
  function on the coordinator's state.
\<close>

definition timeout_callback :: "(Output \<Rightarrow> Output) \<Rightarrow> Output \<Rightarrow> Output" where
  "timeout_callback runThrottled_render this = runThrottled_render (this\<lparr>isRenderQueued := False\<rparr>)"

text \<open>
  The host runs the oldest pending callback (all delays are equal); \<open>None\<close> when none is
  pending.
\<close>

definition fire_timeout :: "(Output \<Rightarrow> Output) \<Rightarrow> Output \<Rightarrow> Output option" where
  "fire_timeout runThrottled_render this =
     (case timeouts this of
        [] \<Rightarrow> None
      | d # ds \<Rightarrow> Some (timeout_callback runThrottled_render (this\<lparr>timeouts := ds\<rparr>)))"

section \<open>Methods of an entry\<close>

text \<open>
  A method takes the entry (\<open>this\<close>) and the coordinator it refers to, and returns both.
  \<open>setSeparator\<close>, \<open>delete\<close> and \<open>close\<close> return \<open>this\<close>: the entry of the result.
  The optional parameter \<open>rerender\<close> is \<open>None\<close> when omitted, which is falsy.
\<close>

definition setSeparator ::
  "string \<Rightarrow> bool option \<Rightarrow> OutputEntry \<times> Output \<Rightarrow> OutputEntry \<times> Output" where
  "setSeparator sep rerender_flag = (\<lambda>(this, manager).
     (let prev = separator this;
          this1 = this\<lparr>separator := sep\<rparr>;
          this2 = this1\<lparr>contentMemo := None\<rparr>
      in if rerender_flag = Some True \<and> prev \<noteq> sep then (this2, rerender manager)
         else (this2, manager)))"

definition render_lines :: "OutputEntry \<Rightarrow> OutputLine list" where
  "render_lines this =
     map (new_OutputLine this)
       (js_split_nl (js_join (map js_String (filter truthy (content this))) (separator this)))"

definition getContent :: "OutputEntry \<Rightarrow> OutputLine list \<times> OutputEntry" where
  "getContent this =
     (case contentMemo this of
        Some memo \<Rightarrow> (memo, this)
      | None \<Rightarrow> (let computed = render_lines this
                 in (computed, this\<lparr>contentMemo := Some computed\<rparr>)))"

definition delete :: "OutputEntry \<times> Output \<Rightarrow> OutputEntry \<times> Output" where
  "delete = (\<lambda>(this, manager).
     (this\<lparr>isClosed := True, isDeleted := True, contentMemo := None, content := []\<rparr>,
      rerender manager))"

definition close :: "OutputEntry \<Rightarrow> OutputEntry" where
  "close this = this\<lparr>isClosed := True\<rparr>"

section \<open>Caller code: calls on an entry and transform functions\<close>

text \<open>
  The function given to \<open>update\<close> is arbitrary code of the caller.  It runs while the
  entry is in the middle of \<open>update\<close>, it is handed the entry's own content array (not a
  copy), and it can hold the entry.  So before it returns a new content (\<open>Result\<close>) or
  throws (\<open>Fail\<close>) it can take any number of steps, each of them something the caller
  can do to the entry, and choose the next one from what it sees of the entry.

  What the caller can do to an entry (\<open>entry_op\<close>) is to call one of its methods, or to
  change in place the array that the entry holds as its content (\<open>MutateContent\<close>: a
  \<open>push\<close>, an assignment to an index, ...).  The caller has that array when it passed
  it to the constructor or to \<open>update\<close>, returned it from a transform function or was
  handed it by one.  It never has the fresh \<open>[]\<close> that \<open>delete\<close> assigns, since a
  deleted entry is closed and \<open>update\<close> hands nothing out.  \<open>MutateContent\<close> is taken
  to be possible on every entry that is not deleted, which is more than some callers
  can do (the array built around a string by \<open>line\<close> is never handed out).
\<close>

datatype js_error = Thrown string

datatype entry_op =
    SetSeparator string "bool option"
  | GetContent
  | Update update_arg
  | Delete
  | Close
  | MutateContent "field list \<Rightarrow> field list"
and update_arg =
    Value "field list"
  | Function "field list \<Rightarrow> transform"
and transform =
    Result "field list"
  | Fail js_error
  | Step entry_op "OutputEntry \<Rightarrow> transform"

text \<open>How a call of \<open>update\<close> completes: it returns \<open>this\<close>, returns \<open>undefined\<close>, or throws.\<close>

datatype completion = ReturnThis | ReturnUndefined | Throw js_error

text \<open>
  The method \<open>update\<close> around its \<open>try\<close> block.  The block either completes (\<open>Inr\<close>) or
  throws (\<open>Inl\<close>, with the error and the state at the throw); the \<open>catch\<close> clause is
  empty, so after a throw \<open>update\<close> goes on from that state to \<open>return this\<close>.
\<close>

definition update_with ::
  "(OutputEntry \<times> Output \<Rightarrow> js_error \<times> OutputEntry \<times> Output + OutputEntry \<times> Output) \<Rightarrow>
   OutputEntry \<times> Output \<Rightarrow> completion \<times> OutputEntry \<times> Output" where
  "update_with try_block = (\<lambda>(this, manager).
     if isClosed this then (ReturnUndefined, this, manager)
     else (let this1 = this\<lparr>contentMemo := None\<rparr>
           in (case try_block (this1, manager) of
                 Inr (this2, manager2) \<Rightarrow> (ReturnThis, this2, manager2)
               | Inl (err, this2, manager2) \<Rightarrow> (ReturnThis, this2, manager2))))"

text \<open>
  \<open>update_try\<close> is the body of the \<open>try\<close> block: with a function, \<open>value(this.content)\<close>
  runs first, on the live array, and only when it returns are the content assigned and
  \<open>_rerender\<close> called.  \<open>run_transform\<close> runs the function's steps on the entry and the
  coordinator.  \<open>apply_op\<close> is one thing the caller does to the entry; in place changes
  of the array do not reach a deleted entry, whose array nothing else refers to.
\<close>

primrec apply_op :: "entry_op \<Rightarrow> OutputEntry \<times> Output \<Rightarrow> OutputEntry \<times> Output"
  and update_try ::
    "update_arg \<Rightarrow> OutputEntry \<times> Output \<Rightarrow> js_error \<times> OutputEntry \<times> Output + OutputEntry \<times> Output"
  and run_transform ::
    "transform \<Rightarrow> OutputEntry \<times> Output \<Rightarrow> (js_error + field list) \<times> OutputEntry \<times> Output"
where
  "apply_op (SetSeparator s r) st = setSeparator s r st"
| "apply_op GetContent st = (snd (getContent (fst st)), snd st)"
| "apply_op (Update v) st = snd (update_with (update_try v) st)"
| "apply_op Delete st = delete st"
| "apply_op Close st = (close (fst st), snd st)"
| "apply_op (MutateContent g) st =
     (if isDeleted (fst st) then st else ((fst st)\<lparr>content := g (content (fst st))\<rparr>, snd st))"
| "update_try (Value c) st = Inr ((fst st)\<lparr>content := c\<rparr>, rerender (snd st))"
| "update_try (Function f) st =
     (case run_transform (f (content (fst st))) st of
        (Inl err, st2) \<Rightarrow> Inl (err, st2)
      | (Inr c, this2, manager2) \<Rightarrow> Inr (this2\<lparr>content := c\<rparr>, rerender manager2))"
| "run_transform (Result c) st = (Inr c, st)"
| "run_transform (Fail err) st = (Inl err, st)"
| "run_transform (Step x k) st = (let st1 = apply_op x st in run_transform (k (fst st1)) st1)"

definition update ::
  "update_arg \<Rightarrow> OutputEntry \<times> Output \<Rightarrow> completion \<times> OutputEntry \<times> Output" where
  "update v = update_with (update_try v)"

definition calls :: "entry_op list \<Rightarrow> OutputEntry \<times> Output \<Rightarrow> OutputEntry \<times> Output" where
  "calls ops st = fold apply_op ops st"

section \<open>The printing helpers of the coordinator\<close>

text \<open>
  \<open>outEntries\<close> holds references to entry objects, and an entry stays reachable through
  the reference that \<open>dline\<close> returns.  Here an entry is identified by its position in
  \<open>outEntries\<close>: a method called on the entry at position \<open>h\<close> reads the entry there and
  writes the result back.
\<close>

definition with_entry ::
  "nat \<Rightarrow> (OutputEntry \<times> Output \<Rightarrow> OutputEntry \<times> Output) \<Rightarrow> Output \<Rightarrow> Output" where
  "with_entry h method this =
     (case method (outEntries this ! h, this) of
        (entry, this1) \<Rightarrow> this1\<lparr>outEntries := (outEntries this1)[h := entry]\<rparr>)"

text \<open>The first parameter of \<open>line\<close> and \<open>dline\<close>: a string or an array of fields.\<close>

datatype content_arg = Text string | Fields "field list"

fun as_fields :: "content_arg \<Rightarrow> field list" where
  "as_fields (Text s) = [Str s]"
| "as_fields (Fields fs) = fs"

text \<open>
  \<open>dline\<close> tests the separator against \<open>undefined\<close> (\<open>None\<close>); the result is the reference
  to the new entry and the coordinator's state.
\<close>

definition dline :: "content_arg \<Rightarrow> string option \<Rightarrow> Output \<Rightarrow> nat \<times> Output" where
  "dline initialContent sep this =
     (let h = length (outEntries this);
          this1 = this\<lparr>outEntries := outEntries this @ [new_OutputEntry (as_fields initialContent)]\<rparr>;
          this2 = (case sep of
                     None \<Rightarrow> this1
                   | Some s \<Rightarrow> with_entry h (setSeparator s (Some False)) this1)
      in (h, rerender this2))"

text \<open>\<open>line\<close> tests the separator for truthiness: present and not the empty string.\<close>

definition line :: "content_arg \<Rightarrow> string option \<Rightarrow> Output \<Rightarrow> Output" where
  "line c sep this =
     (let h = length (outEntries this);
          this1 = this\<lparr>outEntries := outEntries this @ [new_OutputEntry (as_fields c)]\<rparr>;
          this2 = (case sep of
                     None \<Rightarrow> this1
                   | Some s \<Rightarrow> if s \<noteq> [] then with_entry h (setSeparator s (Some False)) this1
                              else this1);
          this3 = with_entry h (\<lambda>(entry, manager). (close entry, manager)) this2
      in rerender this3)"

text \<open>The calls that the closed flag gates or that write neither content nor separator.\<close>

fun no_rewrite :: "entry_op \<Rightarrow> bool" where
  "no_rewrite (Update v) = True"
| "no_rewrite Close = True"
| "no_rewrite GetContent = True"
| "no_rewrite (SetSeparator s r) = False"
| "no_rewrite Delete = False"
| "no_rewrite (MutateContent g) = False"

text \<open>
  Caller code that leaves the entry alone where the entry cannot see it: no change of
  the content array in place, and transform functions that only return or throw.
\<close>

fun plain_transform :: "transform \<Rightarrow> bool" where
  "plain_transform (Result c) = True"
| "plain_transform (Fail err) = True"
| "plain_transform (Step x k) = False"

fun plain_op :: "entry_op \<Rightarrow> bool" where
  "plain_op (Update (Function f)) = (\<forall>c. plain_transform (f c))"
| "plain_op (Update (Value c)) = True"
| "plain_op (MutateContent g) = False"
| "plain_op (SetSeparator s r) = True"
| "plain_op GetContent = True"
| "plain_op Delete = True"
| "plain_op Close = True"

section \<open>Predicates on lines and entry states\<close>

text \<open>The index, within a list of lines, of its first line that is not closed.\<close>

fun first_open :: "OutputLine list \<Rightarrow> nat option" where
  "first_open [] = None"
| "first_open (l # ls) = (if \<not> entryClosed l then Some 0 else map_option Suc (first_open ls))"

text \<open>The texts that \<open>getContent\<close> computes from the current content and separator.\<close>

definition texts :: "OutputEntry \<Rightarrow> string list" where
  "texts e = js_split_nl (js_join (map js_String (filter truthy (content e))) (separator e))"

definition tagged :: "bool \<Rightarrow> string list \<Rightarrow> OutputLine list" where
  "tagged b ts = map (\<lambda>txt. \<lparr>OutputLine.content = txt, entryClosed = b\<rparr>) ts"

text \<open>
  A memo that holds the texts of the current content and separator, tagged with a closed
  flag the entry had at some earlier moment: \<open>False\<close>, or \<open>True\<close> if the entry is closed
  now.
\<close>

definition memo_ok :: "OutputEntry \<Rightarrow> bool" where
  "memo_ok e =
     (case contentMemo e of
        None \<Rightarrow> True
      | Some ls \<Rightarrow> ls = tagged False (texts e) \<or> (isClosed e \<and> ls = tagged True (texts e)))"

text \<open>A memo that is what \<open>getContent\<close> computes in some state of an entry.\<close>

definition memo_rendered :: "OutputEntry \<Rightarrow> bool" where
  "memo_rendered e =
     (case contentMemo e of
        None \<Rightarrow> True
      | Some ls \<Rightarrow> \<exists>e0. ls = render_lines e0)"

text \<open>The states an entry can be in once \<open>delete\<close> has run.\<close>

definition deleted_state :: "OutputEntry \<Rightarrow> bool" where
  "deleted_state e \<longleftrightarrow>
     isClosed e \<and> isDeleted e \<and> content e = [] \<and>
     (contentMemo e = None \<or>
      contentMemo e = Some [\<lparr>OutputLine.content = [], entryClosed = True\<rparr>])"

section \<open>Properties of the buffer\<close>

lemma put_loop_lines: "i \<le> length ls \<Longrightarrow> lines (put_loop ls i c b) = lines b @ drop i ls"
proof (induction ls i c b rule: put_loop.induct)
  case (1 ls i checkClosed this)
  show ?case
  proof (cases "i < length ls")
    case False
    with "1.prems" show ?thesis by (subst put_loop.simps) simp
  next
    case True
    then have d: "drop i ls = ls ! i # drop (Suc i) ls"
      by (simp add: Cons_nth_drop_Suc)
    show ?thesis
    proof (cases "checkClosed \<and> \<not> entryClosed (ls ! i)")
      case c: True
      have "put_loop ls i checkClosed this =
            put_loop ls (Suc i) False (this\<lparr>lines := lines this @ [ls ! i], firstOpenLineIdx := i\<rparr>)"
        using True c by (subst put_loop.simps) (simp add: Let_def)
      moreover have "lines (put_loop ls (Suc i) False
                       (this\<lparr>lines := lines this @ [ls ! i], firstOpenLineIdx := i\<rparr>))
          = lines (this\<lparr>lines := lines this @ [ls ! i], firstOpenLineIdx := i\<rparr>) @ drop (Suc i) ls"
        using "1.IH"(1) [OF True refl refl] c True by simp
      ultimately show ?thesis using d by simp
    next
      case c: False
      have "put_loop ls i checkClosed this =
            put_loop ls (Suc i) checkClosed (this\<lparr>lines := lines this @ [ls ! i]\<rparr>)"
        using True c by (subst put_loop.simps) (auto simp: Let_def)
      moreover have "lines (put_loop ls (Suc i) checkClosed (this\<lparr>lines := lines this @ [ls ! i]\<rparr>))
          = lines (this\<lparr>lines := lines this @ [ls ! i]\<rparr>) @ drop (Suc i) ls"
        using "1.IH"(2) [OF True refl refl] c True by simp
      ultimately show ?thesis using d by simp
    qed
  qed
qed

lemma put_lines: "lines (put ls b) = lines b @ ls"
  by (simp add: put_def put_loop_lines)

text \<open>
  What \<open>put\<close> does to the marker: a call whose argument holds an open line sets it to
  the index of the first such line within the argument; any other call leaves it alone.
\<close>

lemma put_loop_marker:
  "i \<le> length ls \<Longrightarrow>
   firstOpenLineIdx (put_loop ls i c b) =
     (if c then (case first_open (drop i ls) of None \<Rightarrow> firstOpenLineIdx b | Some k \<Rightarrow> i + k)
      else firstOpenLineIdx b)"
proof (induction ls i c b rule: put_loop.induct)
  case (1 ls i checkClosed this)
  show ?case
  proof (cases "i < length ls")
    case False
    with "1.prems" show ?thesis by (subst put_loop.simps) simp
  next
    case True
    then have d: "drop i ls = ls ! i # drop (Suc i) ls"
      by (simp add: Cons_nth_drop_Suc)
    show ?thesis
    proof (cases "checkClosed \<and> \<not> entryClosed (ls ! i)")
      case c: True
      have "put_loop ls i checkClosed this =
            put_loop ls (Suc i) False (this\<lparr>lines := lines this @ [ls ! i], firstOpenLineIdx := i\<rparr>)"
        using True c by (subst put_loop.simps) (simp add: Let_def)
      moreover have "firstOpenLineIdx (put_loop ls (Suc i) False
                       (this\<lparr>lines := lines this @ [ls ! i], firstOpenLineIdx := i\<rparr>)) = i"
        using "1.IH"(1) [OF True refl refl] c True by simp
      ultimately show ?thesis using d c by simp
    next
      case c: False
      have "put_loop ls i checkClosed this =
            put_loop ls (Suc i) checkClosed (this\<lparr>lines := lines this @ [ls ! i]\<rparr>)"
        using True c by (subst put_loop.simps) (auto simp: Let_def)
      moreover have "firstOpenLineIdx (put_loop ls (Suc i) checkClosed (this\<lparr>lines := lines this @ [ls ! i]\<rparr>))
          = (if checkClosed then (case first_open (drop (Suc i) ls) of None \<Rightarrow> firstOpenLineIdx this | Some k \<Rightarrow> Suc i + k)
      else firstOpenLineIdx this)"
        using "1.IH"(2) [OF True refl refl] c True by (simp split: option.splits)
      ultimately show ?thesis using d c by (auto split: option.splits)
    qed
  qed
qed

lemma put_marker:
  "firstOpenLineIdx (put ls b) =
     (case first_open ls of None \<Rightarrow> firstOpenLineIdx b | Some k \<Rightarrow> k)"
  by (simp add: put_def put_loop_marker split: option.splits)

text \<open>
  Claim C1 says that the marker \<open>firstOpenLineIdx\<close> is the index, in the buffer's whole
  line sequence, of the first line that is not closed, and that later calls of \<open>put\<close> do
  not overwrite it.  \<open>put\<close> stores the loop index of its argument and starts each call
  with a fresh \<open>checkClosed\<close>.  After \<open>put\<close> of one closed line and then \<open>put\<close> of one
  open line the buffer holds the closed line at index 0 and the open one at index 1, and
  the marker is 0; after \<open>put\<close> of a closed and an open line the marker is 1, and a
  further \<open>put\<close> of an open line sets it to 0.
\<close>

theorem put_marker_is_argument_index:
  "lines (put [\<lparr>OutputLine.content = ''b'', entryClosed = False\<rparr>]
            (put [\<lparr>OutputLine.content = ''a'', entryClosed = True\<rparr>] new_OutputBuffer))
     = [\<lparr>OutputLine.content = ''a'', entryClosed = True\<rparr>,
        \<lparr>OutputLine.content = ''b'', entryClosed = False\<rparr>]
   \<and> firstOpenLineIdx (put [\<lparr>OutputLine.content = ''b'', entryClosed = False\<rparr>]
            (put [\<lparr>OutputLine.content = ''a'', entryClosed = True\<rparr>] new_OutputBuffer)) = 0
   \<and> firstOpenLineIdx (put [\<lparr>OutputLine.content = ''a'', entryClosed = True\<rparr>,
                             \<lparr>OutputLine.content = ''b'', entryClosed = False\<rparr>] new_OutputBuffer) = 1
   \<and> firstOpenLineIdx (put [\<lparr>OutputLine.content = ''c'', entryClosed = False\<rparr>]
            (put [\<lparr>OutputLine.content = ''a'', entryClosed = True\<rparr>,
                  \<lparr>OutputLine.content = ''b'', entryClosed = False\<rparr>] new_OutputBuffer)) = 0"
  by (simp add: put_def put_loop.simps new_OutputBuffer_def)

lemma loop_Some:
  "findFirstDifferentLine_loop xs ys lim i = Some k \<longleftrightarrow>
     i \<le> k \<and> k < lim \<and> content_at xs k \<noteq> content_at ys k \<and>
     (\<forall>j. i \<le> j \<and> j < k \<longrightarrow> content_at xs j = content_at ys j)"
proof (induction xs ys lim i rule: findFirstDifferentLine_loop.induct)
  case (1 xs ys lim i)
  show ?case
  proof (cases "i < lim")
    case False
    then show ?thesis
      by (subst findFirstDifferentLine_loop.simps) auto
  next
    case True
    show ?thesis
    proof (cases "content_at xs i = content_at ys i")
      case False
      with True show ?thesis
        by (subst findFirstDifferentLine_loop.simps) (auto simp: not_less)
    next
      case same: True
      have step: "findFirstDifferentLine_loop xs ys lim i =
                  findFirstDifferentLine_loop xs ys lim (Suc i)"
        using True same by (subst findFirstDifferentLine_loop.simps) simp
      have ih: "findFirstDifferentLine_loop xs ys lim (Suc i) = Some k \<longleftrightarrow>
         Suc i \<le> k \<and> k < lim \<and> content_at xs k \<noteq> content_at ys k \<and>
         (\<forall>j. Suc i \<le> j \<and> j < k \<longrightarrow> content_at xs j = content_at ys j)"
        using "1.IH" True same by simp
      have split_le: "\<And>j. i \<le> j \<longleftrightarrow> j = i \<or> Suc i \<le> j"
        by auto
      show ?thesis
        unfolding step ih using same
        by (auto simp: split_le)
    qed
  qed
qed

lemma loop_None:
  "findFirstDifferentLine_loop xs ys lim i = None \<longleftrightarrow>
     (\<forall>j. i \<le> j \<and> j < lim \<longrightarrow> content_at xs j = content_at ys j)"
proof (induction xs ys lim i rule: findFirstDifferentLine_loop.induct)
  case (1 xs ys lim i)
  show ?case
  proof (cases "i < lim")
    case False
    then show ?thesis
      by (subst findFirstDifferentLine_loop.simps) auto
  next
    case True
    show ?thesis
    proof (cases "content_at xs i = content_at ys i")
      case False
      with True show ?thesis
        by (subst findFirstDifferentLine_loop.simps) auto
    next
      case same: True
      have step: "findFirstDifferentLine_loop xs ys lim i =
                  findFirstDifferentLine_loop xs ys lim (Suc i)"
        using True same by (subst findFirstDifferentLine_loop.simps) simp
      have ih: "findFirstDifferentLine_loop xs ys lim (Suc i) = None \<longleftrightarrow>
         (\<forall>j. Suc i \<le> j \<and> j < lim \<longrightarrow> content_at xs j = content_at ys j)"
        using "1.IH" True same by simp
      have split_le: "\<And>j. i \<le> j \<longleftrightarrow> j = i \<or> Suc i \<le> j"
        by auto
      show ?thesis
        unfolding step ih using same
        by (auto simp: split_le)
    qed
  qed
qed

text \<open>
  Claim C6: \<open>A.findFirstDifferentLine(B)\<close> scans the indices from \<open>A\<close>'s
  \<open>firstOpenLineIdx\<close> up to the larger of the two line counts.  It returns an index \<open>k\<close>
  exactly when \<open>k\<close> is in that range, the two buffers differ at \<open>k\<close> (only one of them
  has a line there, or both have and the texts of the two lines are not equal), and at
  every earlier index of the range both have a line and the two texts are equal.  It
  returns \<open>null\<close> exactly when at every index of the range both have a line and the
  texts are equal.
\<close>

theorem findFirstDifferentLine_first_difference:
  "(findFirstDifferentLine A B = Some k \<longleftrightarrow>
      firstOpenLineIdx A \<le> k \<and> k < max (length (lines A)) (length (lines B)) \<and>
      (k < length (lines A) \<and> k < length (lines B) \<longrightarrow>
         OutputLine.content (lines A ! k) \<noteq> OutputLine.content (lines B ! k)) \<and>
      (\<forall>j. firstOpenLineIdx A \<le> j \<and> j < k \<longrightarrow>
           j < length (lines A) \<and> j < length (lines B) \<and>
           OutputLine.content (lines A ! j) = OutputLine.content (lines B ! j)))
   \<and> (findFirstDifferentLine A B = None \<longleftrightarrow>
      (\<forall>j. firstOpenLineIdx A \<le> j \<and> j < max (length (lines A)) (length (lines B)) \<longrightarrow>
           j < length (lines A) \<and> j < length (lines B) \<and>
           OutputLine.content (lines A ! j) = OutputLine.content (lines B ! j)))"
proof -
  have agree: "content_at (lines A) j = content_at (lines B) j \<longleftrightarrow>
          j < length (lines A) \<and> j < length (lines B) \<and>
          OutputLine.content (lines A ! j) = OutputLine.content (lines B ! j)"
    if "j < max (length (lines A)) (length (lines B))" for j
    using that by (auto simp: content_at_def)
  have some: "findFirstDifferentLine A B = Some k \<longleftrightarrow>
      firstOpenLineIdx A \<le> k \<and> k < max (length (lines A)) (length (lines B)) \<and>
      content_at (lines A) k \<noteq> content_at (lines B) k \<and>
      (\<forall>j. firstOpenLineIdx A \<le> j \<and> j < k \<longrightarrow>
           content_at (lines A) j = content_at (lines B) j)"
    unfolding findFirstDifferentLine_def Let_def loop_Some by simp
  have none: "findFirstDifferentLine A B = None \<longleftrightarrow>
      (\<forall>j. firstOpenLineIdx A \<le> j \<and> j < max (length (lines A)) (length (lines B)) \<longrightarrow>
           content_at (lines A) j = content_at (lines B) j)"
    unfolding findFirstDifferentLine_def Let_def loop_None by simp
  show ?thesis
  proof (intro conjI)
    show "findFirstDifferentLine A B = Some k \<longleftrightarrow>
      firstOpenLineIdx A \<le> k \<and> k < max (length (lines A)) (length (lines B)) \<and>
      (k < length (lines A) \<and> k < length (lines B) \<longrightarrow>
         OutputLine.content (lines A ! k) \<noteq> OutputLine.content (lines B ! k)) \<and>
      (\<forall>j. firstOpenLineIdx A \<le> j \<and> j < k \<longrightarrow>
           j < length (lines A) \<and> j < length (lines B) \<and>
           OutputLine.content (lines A ! j) = OutputLine.content (lines B ! j))"
      unfolding some
    proof (cases "k < max (length (lines A)) (length (lines B))")
      case False
      then show "firstOpenLineIdx A \<le> k \<and> k < max (length (lines A)) (length (lines B)) \<and>
      content_at (lines A) k \<noteq> content_at (lines B) k \<and>
      (\<forall>j. firstOpenLineIdx A \<le> j \<and> j < k \<longrightarrow>
           content_at (lines A) j = content_at (lines B) j) \<longleftrightarrow>
      firstOpenLineIdx A \<le> k \<and> k < max (length (lines A)) (length (lines B)) \<and>
      (k < length (lines A) \<and> k < length (lines B) \<longrightarrow>
         OutputLine.content (lines A ! k) \<noteq> OutputLine.content (lines B ! k)) \<and>
      (\<forall>j. firstOpenLineIdx A \<le> j \<and> j < k \<longrightarrow>
           j < length (lines A) \<and> j < length (lines B) \<and>
           OutputLine.content (lines A ! j) = OutputLine.content (lines B ! j))" by simp
    next
      case True
      then have below: "j < max (length (lines A)) (length (lines B))" if "j < k" for j
        using that by simp
      have "(\<forall>j. firstOpenLineIdx A \<le> j \<and> j < k \<longrightarrow>
           content_at (lines A) j = content_at (lines B) j) \<longleftrightarrow>
         (\<forall>j. firstOpenLineIdx A \<le> j \<and> j < k \<longrightarrow>
           j < length (lines A) \<and> j < length (lines B) \<and>
           OutputLine.content (lines A ! j) = OutputLine.content (lines B ! j))"
        using agree below by blast
      moreover have "content_at (lines A) k \<noteq> content_at (lines B) k \<longleftrightarrow>
         (k < length (lines A) \<and> k < length (lines B) \<longrightarrow>
         OutputLine.content (lines A ! k) \<noteq> OutputLine.content (lines B ! k))"
        using agree [OF True] by blast
      ultimately show "firstOpenLineIdx A \<le> k \<and> k < max (length (lines A)) (length (lines B)) \<and>
      content_at (lines A) k \<noteq> content_at (lines B) k \<and>
      (\<forall>j. firstOpenLineIdx A \<le> j \<and> j < k \<longrightarrow>
           content_at (lines A) j = content_at (lines B) j) \<longleftrightarrow>
      firstOpenLineIdx A \<le> k \<and> k < max (length (lines A)) (length (lines B)) \<and>
      (k < length (lines A) \<and> k < length (lines B) \<longrightarrow>
         OutputLine.content (lines A ! k) \<noteq> OutputLine.content (lines B ! k)) \<and>
      (\<forall>j. firstOpenLineIdx A \<le> j \<and> j < k \<longrightarrow>
           j < length (lines A) \<and> j < length (lines B) \<and>
           OutputLine.content (lines A ! j) = OutputLine.content (lines B ! j))" by simp
    qed
    show "findFirstDifferentLine A B = None \<longleftrightarrow>
      (\<forall>j. firstOpenLineIdx A \<le> j \<and> j < max (length (lines A)) (length (lines B)) \<longrightarrow>
           j < length (lines A) \<and> j < length (lines B) \<and>
           OutputLine.content (lines A ! j) = OutputLine.content (lines B ! j))"
      unfolding none using agree by blast
  qed
qed


text \<open>
  Instances.  With the marker at 1, a difference of the texts at index 0 is not looked
  at, the texts \<open>"b"\<close> at index 1 agree and index 2 is returned, where both buffers have
  a line and the texts \<open>"c"\<close> and \<open>"d"\<close> differ.  Index 2 is also returned when only the
  second buffer has a line there.  When the texts differ only below the marker the
  result is \<open>null\<close>.
\<close>

theorem findFirstDifferentLine_first_difference_witness:
  "findFirstDifferentLine
     \<lparr>lines = [\<lparr>OutputLine.content = ''a'', entryClosed = True\<rparr>,
               \<lparr>OutputLine.content = ''b'', entryClosed = False\<rparr>,
               \<lparr>OutputLine.content = ''c'', entryClosed = False\<rparr>], firstOpenLineIdx = 1\<rparr>
     \<lparr>lines = [\<lparr>OutputLine.content = ''x'', entryClosed = True\<rparr>,
               \<lparr>OutputLine.content = ''b'', entryClosed = False\<rparr>,
               \<lparr>OutputLine.content = ''d'', entryClosed = False\<rparr>], firstOpenLineIdx = 1\<rparr>
     = Some 2 \<and>
   findFirstDifferentLine
     \<lparr>lines = [\<lparr>OutputLine.content = ''a'', entryClosed = True\<rparr>,
               \<lparr>OutputLine.content = ''b'', entryClosed = False\<rparr>], firstOpenLineIdx = 1\<rparr>
     \<lparr>lines = [\<lparr>OutputLine.content = ''a'', entryClosed = True\<rparr>,
               \<lparr>OutputLine.content = ''b'', entryClosed = False\<rparr>,
               \<lparr>OutputLine.content = ''c'', entryClosed = False\<rparr>], firstOpenLineIdx = 1\<rparr>
     = Some 2 \<and>
   findFirstDifferentLine
     \<lparr>lines = [\<lparr>OutputLine.content = ''a'', entryClosed = True\<rparr>,
               \<lparr>OutputLine.content = ''b'', entryClosed = False\<rparr>], firstOpenLineIdx = 1\<rparr>
     \<lparr>lines = [\<lparr>OutputLine.content = ''x'', entryClosed = True\<rparr>,
               \<lparr>OutputLine.content = ''b'', entryClosed = False\<rparr>], firstOpenLineIdx = 1\<rparr>
     = None"
proof (intro conjI)
  show "findFirstDifferentLine
     \<lparr>lines = [\<lparr>OutputLine.content = ''a'', entryClosed = True\<rparr>,
               \<lparr>OutputLine.content = ''b'', entryClosed = False\<rparr>,
               \<lparr>OutputLine.content = ''c'', entryClosed = False\<rparr>], firstOpenLineIdx = 1\<rparr>
     \<lparr>lines = [\<lparr>OutputLine.content = ''x'', entryClosed = True\<rparr>,
               \<lparr>OutputLine.content = ''b'', entryClosed = False\<rparr>,
               \<lparr>OutputLine.content = ''d'', entryClosed = False\<rparr>], firstOpenLineIdx = 1\<rparr>
     = Some 2"
    using findFirstDifferentLine_first_difference
      [of "\<lparr>lines = [\<lparr>OutputLine.content = ''a'', entryClosed = True\<rparr>,
               \<lparr>OutputLine.content = ''b'', entryClosed = False\<rparr>,
               \<lparr>OutputLine.content = ''c'', entryClosed = False\<rparr>], firstOpenLineIdx = 1\<rparr>"
          "\<lparr>lines = [\<lparr>OutputLine.content = ''x'', entryClosed = True\<rparr>,
               \<lparr>OutputLine.content = ''b'', entryClosed = False\<rparr>,
               \<lparr>OutputLine.content = ''d'', entryClosed = False\<rparr>], firstOpenLineIdx = 1\<rparr>" 2]
    by (auto simp: less_Suc_eq numeral_2_eq_2)
  show "findFirstDifferentLine
     \<lparr>lines = [\<lparr>OutputLine.content = ''a'', entryClosed = True\<rparr>,
               \<lparr>OutputLine.content = ''b'', entryClosed = False\<rparr>], firstOpenLineIdx = 1\<rparr>
     \<lparr>lines = [\<lparr>OutputLine.content = ''a'', entryClosed = True\<rparr>,
               \<lparr>OutputLine.content = ''b'', entryClosed = False\<rparr>,
               \<lparr>OutputLine.content = ''c'', entryClosed = False\<rparr>], firstOpenLineIdx = 1\<rparr>
     = Some 2"
    using findFirstDifferentLine_first_difference
      [of "\<lparr>lines = [\<lparr>OutputLine.content = ''a'', entryClosed = True\<rparr>,
               \<lparr>OutputLine.content = ''b'', entryClosed = False\<rparr>], firstOpenLineIdx = 1\<rparr>"
          "\<lparr>lines = [\<lparr>OutputLine.content = ''a'', entryClosed = True\<rparr>,
               \<lparr>OutputLine.content = ''b'', entryClosed = False\<rparr>,
               \<lparr>OutputLine.content = ''c'', entryClosed = False\<rparr>], firstOpenLineIdx = 1\<rparr>" 2]
    by (auto simp: less_Suc_eq numeral_2_eq_2)
  show "findFirstDifferentLine
     \<lparr>lines = [\<lparr>OutputLine.content = ''a'', entryClosed = True\<rparr>,
               \<lparr>OutputLine.content = ''b'', entryClosed = False\<rparr>], firstOpenLineIdx = 1\<rparr>
     \<lparr>lines = [\<lparr>OutputLine.content = ''x'', entryClosed = True\<rparr>,
               \<lparr>OutputLine.content = ''b'', entryClosed = False\<rparr>], firstOpenLineIdx = 1\<rparr>
     = None"
    using findFirstDifferentLine_first_difference
      [of "\<lparr>lines = [\<lparr>OutputLine.content = ''a'', entryClosed = True\<rparr>,
               \<lparr>OutputLine.content = ''b'', entryClosed = False\<rparr>], firstOpenLineIdx = 1\<rparr>"
          "\<lparr>lines = [\<lparr>OutputLine.content = ''x'', entryClosed = True\<rparr>,
               \<lparr>OutputLine.content = ''b'', entryClosed = False\<rparr>], firstOpenLineIdx = 1\<rparr>"]
    by (auto simp: less_Suc_eq numeral_2_eq_2)
qed

section \<open>Properties of the text helpers\<close>

lemma js_join_concat:
  "js_join xs sep = (if xs = [] then [] else concat (map (\<lambda>x. x @ sep) (butlast xs)) @ last xs)"
  by (induction xs sep rule: js_join.induct) simp_all

lemma js_split_nl_nonempty: "js_split_nl s \<noteq> []"
  by (induction s) (simp_all split: list.splits)

lemma js_split_nl_Cons:
  "js_split_nl (c # cs) =
     (if c = CHR 0x0A then [] # js_split_nl cs
      else (c # hd (js_split_nl cs)) # tl (js_split_nl cs))"
  using js_split_nl_nonempty [of cs] by (cases "js_split_nl cs") simp_all

lemma js_split_nl_no_lf: "t \<in> set (js_split_nl s) \<Longrightarrow> CHR 0x0A \<notin> set t"
proof (induction s arbitrary: t)
  case Nil
  then show ?case by simp
next
  case (Cons c cs)
  obtain r rs where rs: "js_split_nl cs = r # rs"
    using js_split_nl_nonempty [of cs] by (cases "js_split_nl cs") auto
  show ?case
  proof (cases "c = CHR 0x0A")
    case True
    with Cons show ?thesis by auto
  next
    case False
    with Cons.prems rs have "t = c # r \<or> t \<in> set rs" by auto
    then show ?thesis
      using Cons.IH rs False by auto
  qed
qed

lemma js_split_nl_rejoin:
  "concat (map (\<lambda>t. t @ [CHR 0x0A]) (butlast (js_split_nl s))) @ last (js_split_nl s) = s"
proof (induction s)
  case Nil
  then show ?case by simp
next
  case (Cons c cs)
  obtain r rs where rs: "js_split_nl cs = r # rs"
    using js_split_nl_nonempty [of cs] by (cases "js_split_nl cs") auto
  show ?case
  proof (cases "c = CHR 0x0A")
    case True
    with Cons rs show ?thesis by simp
  next
    case False
    with Cons rs show ?thesis by (cases rs) simp_all
  qed
qed


text \<open>The three properties above determine the result of the split.\<close>

lemma split_unique:
  assumes "ts \<noteq> []" "\<forall>t\<in>set ts. CHR 0x0A \<notin> set t"
    "concat (map (\<lambda>t. t @ [CHR 0x0A]) (butlast ts)) @ last ts = s"
  shows "ts = js_split_nl s"
  using assms
proof (induction s arbitrary: ts)
  case Nil
  then show ?case by (cases ts) (auto split: if_splits)
next
  case (Cons c cs)
  obtain t rest where ts: "ts = t # rest" using Cons.prems(1) by (cases ts) auto
  show ?case
  proof (cases t)
    case tn: Nil
    show ?thesis
    proof (cases rest)
      case Nil
      with ts tn Cons.prems show ?thesis by simp
    next
      case (Cons t2 rest2)
      then have rne: "rest \<noteq> []" by simp
      then have "butlast ts = [] # butlast rest" and "last ts = last rest"
        using ts tn by simp_all
      with Cons.prems(3) have c: "c = CHR 0x0A"
        and r: "concat (map (\<lambda>t. t @ [CHR 0x0A]) (butlast rest)) @ last rest = cs"
        by auto
      have "rest = js_split_nl cs"
        using Cons.IH [of rest] r Cons.prems(2) ts rne by simp
      with c ts tn show ?thesis by simp
    qed
  next
    case tc: (Cons a t')
    have ne: "a \<noteq> CHR 0x0A" using Cons.prems(2) ts tc by auto
    have a: "a = c" and r: "concat (map (\<lambda>t. t @ [CHR 0x0A]) (butlast (t' # rest))) @ last (t' # rest) = cs"
      using Cons.prems(3) ts tc by (cases rest; simp)+
    have "t' # rest = js_split_nl cs"
      using Cons.IH [of "t' # rest"] r Cons.prems(2) ts tc by simp
    then have "js_split_nl cs = t' # rest" by simp
    then show ?thesis using a ne ts tc by simp
  qed
qed

lemma truthy_case:
  "truthy = (\<lambda>f. case f of Undefined \<Rightarrow> False | Str s \<Rightarrow> s \<noteq> [] | Other t s \<Rightarrow> t)"
  by (rule ext) (simp split: field.splits)

lemma js_String_case:
  "js_String = (\<lambda>f. case f of Undefined \<Rightarrow> ''undefined'' | Str s \<Rightarrow> s | Other t s \<Rightarrow> s)"
  by (rule ext) (simp split: field.splits)


section \<open>Properties of entries\<close>

lemma render_lines_tagged: "render_lines e = tagged (isClosed e) (texts e)"
  by (simp add: render_lines_def tagged_def texts_def new_OutputLine_def)

lemma update_with_closed: "isClosed (fst st) \<Longrightarrow> update_with tb st = (ReturnUndefined, st)"
  by (cases st) (simp add: update_with_def)

lemma update_closed: "isClosed e \<Longrightarrow> update v (e, m) = (ReturnUndefined, e, m)"
  by (simp add: update_def update_with_closed)

lemma update_open:
  "\<not> isClosed e \<Longrightarrow> update v (e, m) =
     (case update_try v (e\<lparr>contentMemo := None\<rparr>, m) of
        Inr st2 \<Rightarrow> (ReturnThis, st2)
      | Inl (err, st2) \<Rightarrow> (ReturnThis, st2))"
  by (simp add: update_def update_with_def split: sum.splits prod.splits)

lemma calls_Nil: "calls [] st = st"
  by (simp add: calls_def)

lemma calls_Cons: "calls (x # xs) st = calls xs (apply_op x st)"
  by (simp add: calls_def)


subsection \<open>After delete\<close>

lemma deleted_state_delete: "deleted_state (fst (delete (e, m)))"
  by (simp add: delete_def deleted_state_def)



lemma deleted_state_getContent:
  "deleted_state e \<Longrightarrow> fst (getContent e) = [\<lparr>OutputLine.content = [], entryClosed = True\<rparr>]"
  by (auto simp: getContent_def deleted_state_def render_lines_def new_OutputLine_def Let_def)




subsection \<open>After close\<close>

lemma closed_apply_op:
  assumes "isClosed (fst st)" "no_rewrite x"
  shows "isClosed (fst (apply_op x st)) \<and>
         fst (getContent (fst (apply_op x st))) = fst (getContent (fst st))"
proof (cases st)
  case (Pair e m)
  show ?thesis
  proof (cases x)
    case (Update v)
    then show ?thesis using assms Pair by (simp add: update_with_closed)
  next
    case GetContent
    then show ?thesis using assms Pair
      by (auto simp: getContent_def Let_def split: option.splits)
  next
    case Close
    then show ?thesis using assms Pair
      by (auto simp: getContent_def close_def render_lines_def new_OutputLine_def Let_def
          split: option.splits)
  qed (use assms in simp_all)
qed

lemma closed_calls:
  "isClosed (fst st) \<Longrightarrow> \<forall>x\<in>set ops. no_rewrite x \<Longrightarrow>
     isClosed (fst (calls ops st)) \<and>
     fst (getContent (fst (calls ops st))) = fst (getContent (fst st))"
proof (induction ops arbitrary: st)
  case Nil
  then show ?case by (simp add: calls_Nil)
next
  case (Cons x xs)
  have a: "isClosed (fst (apply_op x st)) \<and>
           fst (getContent (fst (apply_op x st))) = fst (getContent (fst st))"
    using Cons.prems by (intro closed_apply_op) simp_all
  have "\<forall>x\<in>set xs. no_rewrite x" using Cons.prems by simp
  with a Cons.IH [of "apply_op x st"] show ?case
    by (simp add: calls_Cons)
qed


text \<open>
  Claim C3, as amended: once the closed flag of an entry is true, no sequence of
  \<open>update()\<close>, \<open>close()\<close> and \<open>getContent()\<close> calls changes the result of \<open>getContent()\<close>,
  and the entry stays closed; \<open>delete()\<close> still takes effect on it, after which
  \<open>getContent()\<close> returns one empty line.
\<close>

theorem closed_update_close_keep_content:
  assumes "isClosed e" "\<forall>x\<in>set ops. no_rewrite x"
  shows "fst (getContent (fst (calls ops (e, m)))) = fst (getContent e) \<and>
         isClosed (fst (calls ops (e, m))) \<and>
         fst (getContent (fst (delete (calls ops (e, m))))) =
           [\<lparr>OutputLine.content = [], entryClosed = True\<rparr>]"
proof -
  have "deleted_state (fst (delete (calls ops (e, m))))"
    using deleted_state_delete [of "fst (calls ops (e, m))" "snd (calls ops (e, m))"] by simp
  then show ?thesis
    using closed_calls [of "(e, m)" ops] assms deleted_state_getContent by simp
qed


text \<open>
  An instance: a closed entry with content \<open>["y"]\<close> keeps rendering \<open>"y"\<close> through
  updates with a value and with a function, and renders one empty line once deleted.
\<close>

theorem closed_update_close_keep_content_witness:
  "isClosed (close (new_OutputEntry [Str ''y''])) \<and>
   list_all no_rewrite [Update (Value [Str ''z'']), GetContent, Close,
              Update (Function (\<lambda>c. Result (c @ [Str ''w''])))] \<and>
   fst (getContent (fst (calls [Update (Value [Str ''z'']), GetContent, Close,
                                Update (Function (\<lambda>c. Result (c @ [Str ''w''])))]
                           (close (new_OutputEntry [Str ''y'']), new_Output)))) =
     [\<lparr>OutputLine.content = ''y'', entryClosed = True\<rparr>] \<and>
   fst (getContent (fst (delete (calls [Update (Value [Str ''z'']), GetContent, Close,
                                Update (Function (\<lambda>c. Result (c @ [Str ''w''])))]
                           (close (new_OutputEntry [Str ''y'']), new_Output))))) =
     [\<lparr>OutputLine.content = [], entryClosed = True\<rparr>]"
proof -
  have h1: "isClosed (close (new_OutputEntry [Str ''y'']))"
    by (simp add: close_def)
  have h2: "\<forall>x\<in>set [Update (Value [Str ''z'']), GetContent, Close,
              Update (Function (\<lambda>c. Result (c @ [Str ''w''])))]. no_rewrite x"
    by simp
  have g: "fst (getContent (close (new_OutputEntry [Str ''y'']))) =
             [\<lparr>OutputLine.content = ''y'', entryClosed = True\<rparr>]"
    by (simp add: getContent_def close_def new_OutputEntry_def render_lines_def
        new_OutputLine_def Let_def)
  show ?thesis
    using h1 h2 g closed_update_close_keep_content [OF h1 h2, of new_Output] by simp
qed

text \<open>
  Claim C3 as stated fails: on a closed entry with content \<open>["a", "b"]\<close>, which renders
  the line \<open>"a b"\<close>, \<open>delete()\<close> changes the result of \<open>getContent()\<close> to one empty line.
\<close>

theorem closed_delete_counterexample:
  "isClosed (close (new_OutputEntry [Str ''a'', Str ''b''])) \<and>
   fst (getContent (close (new_OutputEntry [Str ''a'', Str ''b'']))) =
     [\<lparr>OutputLine.content = ''a b'', entryClosed = True\<rparr>] \<and>
   fst (getContent (fst (delete (close (new_OutputEntry [Str ''a'', Str ''b'']), new_Output)))) =
     [\<lparr>OutputLine.content = [], entryClosed = True\<rparr>]"
  by (simp add: getContent_def delete_def close_def new_OutputEntry_def
      render_lines_def new_OutputLine_def Let_def)

lemma updates_closed: "isClosed e \<Longrightarrow> calls (map Update vs) (e, m) = (e, m)"
  by (induction vs) (simp_all add: calls_Nil calls_Cons update_with_closed)

text \<open>
  Claim C4: after \<open>close()\<close>, any sequence of \<open>update()\<close> calls, with values or with
  functions, leaves the result of \<open>getContent()\<close> as it was before those calls; the calls
  change neither the entry nor the coordinator.
\<close>

theorem updates_after_close_ignored:
  "fst (getContent (fst (calls (map Update vs) (close e, m)))) = fst (getContent (close e)) \<and>
   calls (map Update vs) (close e, m) = (close e, m)"
proof -
  have "isClosed (close e)" by (simp add: close_def)
  then show ?thesis by (simp add: updates_closed)
qed

text \<open>
  The scenario of an entry created with \<open>"x"\<close>, updated to \<open>"y"\<close>, closed and updated to
  \<open>"z"\<close>: it renders \<open>"y"\<close>.
\<close>

theorem updates_after_close_ignored_witness:
  "fst (getContent (fst (calls (map Update [Value [Str ''z'']])
          (close (fst (snd (update (Value [Str ''y'']) (new_OutputEntry [Str ''x''], new_Output)))),
           new_Output)))) =
     [\<lparr>OutputLine.content = ''y'', entryClosed = True\<rparr>]"
proof -
  have g: "fst (getContent (close (fst (snd (update (Value [Str ''y''])
                                              (new_OutputEntry [Str ''x''], new_Output)))))) =
             [\<lparr>OutputLine.content = ''y'', entryClosed = True\<rparr>]"
    by (simp add: getContent_def close_def update_def update_with_def new_OutputEntry_def
        render_lines_def new_OutputLine_def Let_def)
  show ?thesis
    using g updates_after_close_ignored
      [of "[Value [Str ''z'']]"
          "fst (snd (update (Value [Str ''y'']) (new_OutputEntry [Str ''x''], new_Output)))"
          new_Output]
    by simp
qed

subsection \<open>Updating\<close>

lemma rerender_idle_changes: "\<not> isRenderQueued m \<Longrightarrow> rerender m \<noteq> m"
proof
  assume idle: "\<not> isRenderQueued m" and same: "rerender m = m"
  have "isRenderQueued (rerender m)" by (simp add: rerender_def)
  with same idle show False by simp
qed


text \<open>
  Claim C5, as amended: on an open entry, when the function given to \<open>update\<close> throws,
  \<open>update\<close> returns \<open>this\<close> (the failure does not reach the caller) and does nothing
  more: it assigns no content and requests no render, so the entry and the coordinator
  are as the function left them.  A function that throws at once, having neither
  changed the array it was given nor called the entry, leaves the content as it was,
  the next \<open>getContent()\<close> renders that content, and the coordinator is untouched.  When
  the function returns, the content is the returned one and \<open>_rerender()\<close> follows, which
  on a coordinator with no render queued changes its state.
\<close>

theorem update_transform_throws:
  assumes "\<not> isClosed e"
  shows "(run_transform (f (content e)) (e\<lparr>contentMemo := None\<rparr>, m) = (Inl err, e2, m2) \<longrightarrow>
            update (Function f) (e, m) = (ReturnThis, e2, m2)) \<and>
         (f (content e) = Fail err \<longrightarrow>
            update (Function f) (e, m) = (ReturnThis, e\<lparr>contentMemo := None\<rparr>, m) \<and>
            content (fst (snd (update (Function f) (e, m)))) = content e \<and>
            fst (getContent (fst (snd (update (Function f) (e, m))))) = render_lines e) \<and>
         (run_transform (f (content e)) (e\<lparr>contentMemo := None\<rparr>, m) = (Inr c, e2, m2) \<longrightarrow>
            update (Function f) (e, m) = (ReturnThis, e2\<lparr>content := c\<rparr>, rerender m2)) \<and>
         (\<not> isRenderQueued m \<longrightarrow> rerender m \<noteq> m)"
  using assms rerender_idle_changes [of m]
  by (simp add: update_open getContent_def render_lines_def new_OutputLine_def Let_def)


text \<open>
  An instance on an open entry with content \<open>["x"]\<close> and a coordinator with nothing
  queued: a function that throws at once, a function that pushes \<open>"y"\<close> on the array and
  then throws, and a function that returns the content with \<open>"y"\<close> appended.
\<close>

theorem update_transform_throws_witness:
  "\<not> isClosed (new_OutputEntry [Str ''x'']) \<and>
   update (Function (\<lambda>c. Fail (Thrown ''boom''))) (new_OutputEntry [Str ''x''], new_Output) =
     (ReturnThis, new_OutputEntry [Str ''x''], new_Output) \<and>
   run_transform (Step (MutateContent (\<lambda>a. a @ [Str ''y''])) (\<lambda>e. Fail (Thrown ''boom'')))
     (new_OutputEntry [Str ''x''], new_Output) =
     (Inl (Thrown ''boom''), new_OutputEntry [Str ''x'', Str ''y''], new_Output) \<and>
   update (Function (\<lambda>c. Step (MutateContent (\<lambda>a. a @ [Str ''y''])) (\<lambda>e. Fail (Thrown ''boom''))))
     (new_OutputEntry [Str ''x''], new_Output) =
     (ReturnThis, new_OutputEntry [Str ''x'', Str ''y''], new_Output) \<and>
   run_transform (Result [Str ''x'', Str ''y'']) (new_OutputEntry [Str ''x''], new_Output) =
     (Inr [Str ''x'', Str ''y''], new_OutputEntry [Str ''x''], new_Output) \<and>
   update (Function (\<lambda>c. Result (c @ [Str ''y'']))) (new_OutputEntry [Str ''x''], new_Output) =
     (ReturnThis, new_OutputEntry [Str ''x'', Str ''y''], rerender new_Output) \<and>
   \<not> isRenderQueued new_Output \<and> rerender new_Output \<noteq> new_Output"
proof -
  have h: "\<not> isClosed (new_OutputEntry [Str ''x''])"
    by (simp add: new_OutputEntry_def)
  have c: "content (new_OutputEntry [Str ''x'']) = [Str ''x'']"
    and n: "(new_OutputEntry [Str ''x''])\<lparr>contentMemo := None\<rparr> = new_OutputEntry [Str ''x'']"
    and y: "(new_OutputEntry [Str ''x''])\<lparr>content := [Str ''x'', Str ''y'']\<rparr> =
              new_OutputEntry [Str ''x'', Str ''y'']"
    by (simp_all add: new_OutputEntry_def)
  have r: "run_transform (Step (MutateContent (\<lambda>a. a @ [Str ''y''])) (\<lambda>e. Fail (Thrown ''boom'')))
     (new_OutputEntry [Str ''x''], new_Output) =
     (Inl (Thrown ''boom''), new_OutputEntry [Str ''x'', Str ''y''], new_Output)"
    by (simp add: new_OutputEntry_def)
  have i: "\<not> isRenderQueued new_Output"
    by (simp add: new_Output_def)
  show ?thesis
    using h r i
      update_transform_throws [OF h, of "\<lambda>c. Fail (Thrown ''boom'')" new_Output "Thrown ''boom''"]
      update_transform_throws [OF h,
        of "\<lambda>c. Step (MutateContent (\<lambda>a. a @ [Str ''y''])) (\<lambda>e. Fail (Thrown ''boom''))"
           new_Output "Thrown ''boom''" "new_OutputEntry [Str ''x'', Str ''y'']" new_Output]
      update_transform_throws [OF h, of "\<lambda>c. Result (c @ [Str ''y''])" new_Output _
           "new_OutputEntry [Str ''x'']" new_Output "[Str ''x'', Str ''y'']"]
    by (simp add: c n y)
qed

text \<open>
  Claim C5 as stated fails: the function is handed the entry's own array, so a function
  that pushes \<open>"y"\<close> on it and then throws leaves an open entry that had the content
  \<open>["x"]\<close> with the content \<open>["x", "y"]\<close>.
\<close>

theorem update_transform_mutates_counterexample:
  "\<not> isClosed (new_OutputEntry [Str ''x'']) \<and>
   content (new_OutputEntry [Str ''x'']) = [Str ''x''] \<and>
   fst (run_transform (Step (MutateContent (\<lambda>a. a @ [Str ''y''])) (\<lambda>e. Fail (Thrown ''boom'')))
          (new_OutputEntry [Str ''x''], new_Output)) = Inl (Thrown ''boom'') \<and>
   content (fst (snd (update
      (Function (\<lambda>c. Step (MutateContent (\<lambda>a. a @ [Str ''y''])) (\<lambda>e. Fail (Thrown ''boom''))))
      (new_OutputEntry [Str ''x''], new_Output)))) = [Str ''x'', Str ''y'']"
  by (simp add: update_def update_with_def new_OutputEntry_def)

text \<open>
  Claim C9 says that \<open>update()\<close> always returns the entry.  On a closed entry the guard
  \<open>if (this._isClosed) return;\<close> returns \<open>undefined\<close>: an entry created with \<open>["x"]\<close> and
  closed is closed, and \<open>update(["y"])\<close> on it returns \<open>undefined\<close>.
\<close>

theorem update_closed_returns_undefined:
  "isClosed (close (new_OutputEntry [Str ''x''])) \<and>
   fst (update (Value [Str ''y'']) (close (new_OutputEntry [Str ''x'']), new_Output)) =
     ReturnUndefined"
  by (simp add: update_def update_with_def close_def)


subsection \<open>Rendering\<close>

lemma getContent_computes:
  assumes "contentMemo e = None"
  shows "fst (getContent e) \<noteq> []"
    and "\<forall>l\<in>set (fst (getContent e)).
           CHR 0x0A \<notin> set (OutputLine.content l) \<and> entryClosed l = isClosed e"
    and "concat (map (\<lambda>l. OutputLine.content l @ [CHR 0x0A]) (butlast (fst (getContent e)))) @
           OutputLine.content (last (fst (getContent e))) =
         (if filter (\<lambda>f. case f of Undefined \<Rightarrow> False | Str s \<Rightarrow> s \<noteq> [] | Other t s \<Rightarrow> t)
               (content e) = [] then []
          else concat (map (\<lambda>f. (case f of Undefined \<Rightarrow> ''undefined'' | Str s \<Rightarrow> s | Other t s \<Rightarrow> s)
                                  @ separator e)
                 (butlast (filter (\<lambda>f. case f of Undefined \<Rightarrow> False | Str s \<Rightarrow> s \<noteq> []
                                          | Other t s \<Rightarrow> t) (content e)))) @
               (case last (filter (\<lambda>f. case f of Undefined \<Rightarrow> False | Str s \<Rightarrow> s \<noteq> []
                                         | Other t s \<Rightarrow> t) (content e)) of
                  Undefined \<Rightarrow> ''undefined'' | Str s \<Rightarrow> s | Other t s \<Rightarrow> s))"
    and "contentMemo (snd (getContent e)) = Some (fst (getContent e))"
proof -
  let ?J = "js_join (map js_String (filter truthy (content e))) (separator e)"
  have g: "fst (getContent e) = map (new_OutputLine e) (js_split_nl ?J)"
    using assms by (simp add: getContent_def render_lines_def Let_def)
  show "fst (getContent e) \<noteq> []"
    by (simp add: g js_split_nl_nonempty)
  show "\<forall>l\<in>set (fst (getContent e)).
           CHR 0x0A \<notin> set (OutputLine.content l) \<and> entryClosed l = isClosed e"
    using js_split_nl_no_lf [of _ ?J] by (auto simp: g new_OutputLine_def)
  have "concat (map (\<lambda>l. OutputLine.content l @ [CHR 0x0A]) (butlast (fst (getContent e)))) @
           OutputLine.content (last (fst (getContent e))) =
        concat (map (\<lambda>t. t @ [CHR 0x0A]) (butlast (js_split_nl ?J))) @ last (js_split_nl ?J)"
    by (simp add: g map_butlast [symmetric] last_map js_split_nl_nonempty new_OutputLine_def comp_def)
  also have "\<dots> = ?J" by (rule js_split_nl_rejoin)
  also have "?J =
         (if filter (\<lambda>f. case f of Undefined \<Rightarrow> False | Str s \<Rightarrow> s \<noteq> [] | Other t s \<Rightarrow> t)
               (content e) = [] then []
          else concat (map (\<lambda>f. (case f of Undefined \<Rightarrow> ''undefined'' | Str s \<Rightarrow> s | Other t s \<Rightarrow> s)
                                  @ separator e)
                 (butlast (filter (\<lambda>f. case f of Undefined \<Rightarrow> False | Str s \<Rightarrow> s \<noteq> []
                                          | Other t s \<Rightarrow> t) (content e)))) @
               (case last (filter (\<lambda>f. case f of Undefined \<Rightarrow> False | Str s \<Rightarrow> s \<noteq> []
                                         | Other t s \<Rightarrow> t) (content e)) of
                  Undefined \<Rightarrow> ''undefined'' | Str s \<Rightarrow> s | Other t s \<Rightarrow> s))"
    unfolding js_join_concat truthy_case js_String_case
    by (simp add: map_butlast [symmetric] last_map comp_def)
  finally show "concat (map (\<lambda>l. OutputLine.content l @ [CHR 0x0A]) (butlast (fst (getContent e)))) @
           OutputLine.content (last (fst (getContent e))) =
         (if filter (\<lambda>f. case f of Undefined \<Rightarrow> False | Str s \<Rightarrow> s \<noteq> [] | Other t s \<Rightarrow> t)
               (content e) = [] then []
          else concat (map (\<lambda>f. (case f of Undefined \<Rightarrow> ''undefined'' | Str s \<Rightarrow> s | Other t s \<Rightarrow> s)
                                  @ separator e)
                 (butlast (filter (\<lambda>f. case f of Undefined \<Rightarrow> False | Str s \<Rightarrow> s \<noteq> []
                                          | Other t s \<Rightarrow> t) (content e)))) @
               (case last (filter (\<lambda>f. case f of Undefined \<Rightarrow> False | Str s \<Rightarrow> s \<noteq> []
                                         | Other t s \<Rightarrow> t) (content e)) of
                  Undefined \<Rightarrow> ''undefined'' | Str s \<Rightarrow> s | Other t s \<Rightarrow> s))" .
  show "contentMemo (snd (getContent e)) = Some (fst (getContent e))"
    using assms by (simp add: getContent_def Let_def)
qed

lemma getContent_memo: "contentMemo e = Some ls \<Longrightarrow> getContent e = (ls, e)"
  by (simp add: getContent_def)

lemma getContent_no_memo: "contentMemo e = None \<Longrightarrow> fst (getContent e) = render_lines e"
  by (simp add: getContent_def Let_def)

lemma memo_ok_new: "memo_ok (new_OutputEntry c)"
  by (simp add: memo_ok_def new_OutputEntry_def)

lemma memo_ok_apply_op:
  assumes "plain_op x" "memo_ok (fst st)"
  shows "memo_ok (fst (apply_op x st))"
proof (cases st)
  case (Pair e m)
  note ok = assms(2)
  show ?thesis
  proof (cases x)
    case (SetSeparator s r)
    then show ?thesis using Pair
      by (simp add: setSeparator_def memo_ok_def Let_def)
  next
    case GetContent
    then show ?thesis using ok Pair
      by (cases "isClosed e")
        (auto simp: getContent_def memo_ok_def render_lines_tagged texts_def Let_def
          split: option.splits)
  next
    case (Update v)
    show ?thesis
    proof (cases "isClosed e")
      case True
      then show ?thesis using ok Pair Update by (simp add: update_with_closed)
    next
      case open_e: False
      show ?thesis
      proof (cases v)
        case (Value c)
        then show ?thesis using Pair Update open_e
          by (simp add: update_with_def memo_ok_def)
      next
        case (Function f)
        then have "plain_transform (f (content e))" using assms(1) Update by simp
        then show ?thesis using Pair Update open_e Function
          by (cases "f (content e)") (simp_all add: update_with_def memo_ok_def)
      qed
    qed
  next
    case Delete
    then show ?thesis using Pair by (simp add: delete_def memo_ok_def)
  next
    case Close
    then show ?thesis using ok Pair
      by (auto simp: close_def memo_ok_def texts_def split: option.splits)
  next
    case (MutateContent g)
    then show ?thesis using assms(1) by simp
  qed
qed

lemma memo_ok_calls:
  "list_all plain_op ops \<Longrightarrow> memo_ok (fst st) \<Longrightarrow> memo_ok (fst (calls ops st))"
  by (induction ops arbitrary: st) (simp_all add: calls_Nil calls_Cons memo_ok_apply_op)

lemma tagged_retag: "map (\<lambda>l. l\<lparr>entryClosed := b\<rparr>) (tagged c ts) = tagged b ts"
  by (simp add: tagged_def)

lemma memo_ok_getContent:
  assumes "memo_ok e"
  shows "\<exists>b. fst (getContent e) =
               map (\<lambda>l. l\<lparr>entryClosed := b\<rparr>) (fst (getContent (e\<lparr>contentMemo := None\<rparr>))) \<and>
             (b \<longrightarrow> isClosed e) \<and> (contentMemo e = None \<longrightarrow> b = isClosed e)"
proof -
  have fresh: "fst (getContent (e\<lparr>contentMemo := None\<rparr>)) = tagged (isClosed e) (texts e)"
    by (simp add: getContent_no_memo render_lines_tagged texts_def)
  show ?thesis
  proof (cases "contentMemo e")
    case None
    then have "fst (getContent e) = tagged (isClosed e) (texts e)"
      by (simp add: getContent_no_memo render_lines_tagged)
    then show ?thesis unfolding fresh tagged_retag by blast
  next
    case (Some ls)
    then have g: "fst (getContent e) = ls" by (simp add: getContent_def)
    from assms Some have "ls = tagged False (texts e) \<or> (isClosed e \<and> ls = tagged True (texts e))"
      by (simp add: memo_ok_def)
    then show ?thesis unfolding fresh tagged_retag using g Some by auto
  qed
qed

lemma memo_rendered_all:
  shows "\<forall>st. memo_rendered (fst st) \<longrightarrow> memo_rendered (fst (apply_op x st))"
    and "\<forall>st. memo_rendered (fst st) \<longrightarrow>
           (case update_try v st of
              Inl (err, st2) \<Rightarrow> memo_rendered (fst st2)
            | Inr st2 \<Rightarrow> memo_rendered (fst st2))"
    and "\<forall>st. memo_rendered (fst st) \<longrightarrow> memo_rendered (fst (snd (run_transform t st)))"
proof (induction x and v and t)
  case (SetSeparator s r)
  then show ?case by (auto simp: setSeparator_def memo_rendered_def Let_def)
next
  case GetContent
  then show ?case
    by (auto simp: getContent_def memo_rendered_def Let_def split: option.splits)
next
  case (Update v)
  show ?case
  proof (intro allI impI)
    fix st :: "OutputEntry \<times> Output"
    assume a: "memo_rendered (fst st)"
    obtain e m where st: "st = (e, m)" by (cases st)
    show "memo_rendered (fst (apply_op (Update v) st))"
    proof (cases "isClosed e")
      case True
      then show ?thesis using a st by (simp add: update_with_closed)
    next
      case False
      have "memo_rendered (fst (e\<lparr>contentMemo := None\<rparr>, m))"
        by (simp add: memo_rendered_def)
      with Update have "case update_try v (e\<lparr>contentMemo := None\<rparr>, m) of
              Inl (err, st2) \<Rightarrow> memo_rendered (fst st2)
            | Inr st2 \<Rightarrow> memo_rendered (fst st2)" by blast
      then show ?thesis using False st
        by (auto simp: update_with_def split: sum.splits prod.splits)
    qed
  qed
next
  case Delete
  then show ?case by (auto simp: delete_def memo_rendered_def)
next
  case Close
  then show ?case by (auto simp: close_def memo_rendered_def)
next
  case (MutateContent g)
  then show ?case by (auto simp: memo_rendered_def)
next
  case (Value c)
  then show ?case by (auto simp: memo_rendered_def)
next
  case (Function f)
  show ?case
  proof (intro allI impI)
    fix st :: "OutputEntry \<times> Output"
    assume a: "memo_rendered (fst st)"
    have "memo_rendered (fst (snd (run_transform (f (content (fst st))) st)))"
      using Function [of "f (content (fst st))"] a by blast
    then show "case update_try (Function f) st of
              Inl (err, st2) \<Rightarrow> memo_rendered (fst st2)
            | Inr st2 \<Rightarrow> memo_rendered (fst st2)"
      by (auto simp: memo_rendered_def split: sum.splits prod.splits)
  qed
next
  case (Result c)
  then show ?case by simp
next
  case (Fail err)
  then show ?case by simp
next
  case (Step x k)
  show ?case
  proof (intro allI impI)
    fix st :: "OutputEntry \<times> Output"
    assume a: "memo_rendered (fst st)"
    have b: "memo_rendered (fst (apply_op x st))" using Step(1) a by blast
    have "memo_rendered (fst (snd (run_transform (k (fst (apply_op x st))) (apply_op x st))))"
      using Step(2) [of "k (fst (apply_op x st))"] b by blast
    then show "memo_rendered (fst (snd (run_transform (Step x k) st)))"
      by (simp add: Let_def)
  qed
qed

lemma memo_rendered_calls: "memo_rendered (fst st) \<Longrightarrow> memo_rendered (fst (calls ops st))"
  by (induction ops arbitrary: st) (simp_all add: calls_Nil calls_Cons memo_rendered_all(1))

lemma memo_rendered_getContent:
  assumes "memo_rendered e"
  shows "\<exists>e0. contentMemo e0 = None \<and> fst (getContent e) = fst (getContent e0)"
proof (cases "contentMemo e")
  case None
  then show ?thesis by blast
next
  case (Some ls)
  with assms obtain e1 where "ls = render_lines e1" by (auto simp: memo_rendered_def)
  then have "fst (getContent e) = fst (getContent (e1\<lparr>contentMemo := None\<rparr>))"
    using Some by (simp add: getContent_def render_lines_def new_OutputLine_def Let_def)
  then show ?thesis by (intro exI [of _ "e1\<lparr>contentMemo := None\<rparr>"]) simp
qed


text \<open>
  Claim C7.  When \<open>getContent()\<close> holds no memo it computes its lines: they are at least
  one, no text holds a line feed, every line carries the entry's current closed flag,
  and the texts put together again with a line feed between neighbours are the joined
  text, which is the texts of the truthy fields (not \<open>undefined\<close>, not the empty string,
  not another falsy value) with the separator between neighbours; the lines are kept as
  the memo.  When a memo is held it is returned as it is.  For an entry in any state
  reached from its construction, by any calls and any transform functions, the lines
  returned are lines so computed in some state.  When the caller neither changes the
  content array in place nor calls the entry from inside a transform function, they are
  the lines of the current content and separator with one flag \<open>b\<close> on all of them, the
  closed flag at the moment they were computed: the current one when no memo is held,
  and never \<open>True\<close> on an open entry.  In particular an entry created with \<open>["a", "b"]\<close>
  and separator \<open>"-"\<close> and updated to \<open>["a", undefined, "c"]\<close> renders the single line
  \<open>"a-c"\<close>; and the content \<open>["a", undefined, "", 1, 0, "b\nc\n", "d"]\<close> with separator
  \<open>", "\<close> renders the three lines \<open>"a, 1, b"\<close>, \<open>"c"\<close> and \<open>", d"\<close>.
\<close>

theorem getContent_pipeline:
  "(contentMemo e = None \<longrightarrow>
      fst (getContent e) \<noteq> [] \<and>
      (\<forall>l\<in>set (fst (getContent e)).
          CHR 0x0A \<notin> set (OutputLine.content l) \<and> entryClosed l = isClosed e) \<and>
      concat (map (\<lambda>l. OutputLine.content l @ [CHR 0x0A]) (butlast (fst (getContent e)))) @
           OutputLine.content (last (fst (getContent e))) =
         (if filter (\<lambda>f. case f of Undefined \<Rightarrow> False | Str s \<Rightarrow> s \<noteq> [] | Other t s \<Rightarrow> t)
               (content e) = [] then []
          else concat (map (\<lambda>f. (case f of Undefined \<Rightarrow> ''undefined'' | Str s \<Rightarrow> s | Other t s \<Rightarrow> s)
                                  @ separator e)
                 (butlast (filter (\<lambda>f. case f of Undefined \<Rightarrow> False | Str s \<Rightarrow> s \<noteq> []
                                          | Other t s \<Rightarrow> t) (content e)))) @
               (case last (filter (\<lambda>f. case f of Undefined \<Rightarrow> False | Str s \<Rightarrow> s \<noteq> []
                                         | Other t s \<Rightarrow> t) (content e)) of
                  Undefined \<Rightarrow> ''undefined'' | Str s \<Rightarrow> s | Other t s \<Rightarrow> s)) \<and>
      contentMemo (snd (getContent e)) = Some (fst (getContent e)))
   \<and> (\<forall>ls. contentMemo e = Some ls \<longrightarrow> getContent e = (ls, e))
   \<and> (\<exists>e0. contentMemo e0 = None \<and>
          fst (getContent (fst (calls ops (new_OutputEntry c, m)))) = fst (getContent e0))
   \<and> (list_all plain_op ops \<longrightarrow>
        (\<exists>b. fst (getContent (fst (calls ops (new_OutputEntry c, m)))) =
               map (\<lambda>l. l\<lparr>entryClosed := b\<rparr>)
                 (fst (getContent ((fst (calls ops (new_OutputEntry c, m)))\<lparr>contentMemo := None\<rparr>))) \<and>
             (b \<longrightarrow> isClosed (fst (calls ops (new_OutputEntry c, m)))) \<and>
             (contentMemo (fst (calls ops (new_OutputEntry c, m))) = None \<longrightarrow>
                b = isClosed (fst (calls ops (new_OutputEntry c, m))))))
   \<and> fst (getContent (fst (calls [SetSeparator ''-'' (Some False),
                                  Update (Value [Str ''a'', Undefined, Str ''c''])]
                             (new_OutputEntry [Str ''a'', Str ''b''], m)))) =
       [\<lparr>OutputLine.content = ''a-c'', entryClosed = False\<rparr>]
   \<and> fst (getContent (fst (calls [SetSeparator '', '' None]
                             (new_OutputEntry [Str ''a'', Undefined, Str [], Other True ''1'', Other False ''0'',
                           Str [CHR ''b'', CHR 0x0A, CHR ''c'', CHR 0x0A], Str ''d''], m)))) =
       [\<lparr>OutputLine.content = ''a, 1, b'', entryClosed = False\<rparr>,
        \<lparr>OutputLine.content = ''c'', entryClosed = False\<rparr>,
        \<lparr>OutputLine.content = '', d'', entryClosed = False\<rparr>]"
proof (intro conjI impI allI)
  assume n: "contentMemo e = None"
  show "fst (getContent e) \<noteq> []"
    by (rule getContent_computes(1) [OF n])
  show "\<forall>l\<in>set (fst (getContent e)).
          CHR 0x0A \<notin> set (OutputLine.content l) \<and> entryClosed l = isClosed e"
    by (rule getContent_computes(2) [OF n])
  show "concat (map (\<lambda>l. OutputLine.content l @ [CHR 0x0A]) (butlast (fst (getContent e)))) @
           OutputLine.content (last (fst (getContent e))) =
         (if filter (\<lambda>f. case f of Undefined \<Rightarrow> False | Str s \<Rightarrow> s \<noteq> [] | Other t s \<Rightarrow> t)
               (content e) = [] then []
          else concat (map (\<lambda>f. (case f of Undefined \<Rightarrow> ''undefined'' | Str s \<Rightarrow> s | Other t s \<Rightarrow> s)
                                  @ separator e)
                 (butlast (filter (\<lambda>f. case f of Undefined \<Rightarrow> False | Str s \<Rightarrow> s \<noteq> []
                                          | Other t s \<Rightarrow> t) (content e)))) @
               (case last (filter (\<lambda>f. case f of Undefined \<Rightarrow> False | Str s \<Rightarrow> s \<noteq> []
                                         | Other t s \<Rightarrow> t) (content e)) of
                  Undefined \<Rightarrow> ''undefined'' | Str s \<Rightarrow> s | Other t s \<Rightarrow> s))"
    by (rule getContent_computes(3) [OF n])
  show "contentMemo (snd (getContent e)) = Some (fst (getContent e))"
    by (rule getContent_computes(4) [OF n])
next
  fix ls
  assume "contentMemo e = Some ls"
  then show "getContent e = (ls, e)" by (rule getContent_memo)
next
  have "memo_rendered (fst (calls ops (new_OutputEntry c, m)))"
    by (rule memo_rendered_calls) (simp add: memo_rendered_def new_OutputEntry_def)
  then show "\<exists>e0. contentMemo e0 = None \<and>
          fst (getContent (fst (calls ops (new_OutputEntry c, m)))) = fst (getContent e0)"
    by (rule memo_rendered_getContent)
next
  assume "list_all plain_op ops"
  then have "memo_ok (fst (calls ops (new_OutputEntry c, m)))"
    by (rule memo_ok_calls) (simp add: memo_ok_new)
  then show "\<exists>b. fst (getContent (fst (calls ops (new_OutputEntry c, m)))) =
               map (\<lambda>l. l\<lparr>entryClosed := b\<rparr>)
                 (fst (getContent ((fst (calls ops (new_OutputEntry c, m)))\<lparr>contentMemo := None\<rparr>))) \<and>
             (b \<longrightarrow> isClosed (fst (calls ops (new_OutputEntry c, m)))) \<and>
             (contentMemo (fst (calls ops (new_OutputEntry c, m))) = None \<longrightarrow>
                b = isClosed (fst (calls ops (new_OutputEntry c, m))))"
    by (rule memo_ok_getContent)
next
  show "fst (getContent (fst (calls [SetSeparator ''-'' (Some False),
                                  Update (Value [Str ''a'', Undefined, Str ''c''])]
                             (new_OutputEntry [Str ''a'', Str ''b''], m)))) =
       [\<lparr>OutputLine.content = ''a-c'', entryClosed = False\<rparr>]"
    by (simp add: calls_def getContent_def setSeparator_def update_with_def
        new_OutputEntry_def render_lines_def new_OutputLine_def Let_def)
next
  show "fst (getContent (fst (calls [SetSeparator '', '' None]
                             (new_OutputEntry [Str ''a'', Undefined, Str [], Other True ''1'', Other False ''0'',
                           Str [CHR ''b'', CHR 0x0A, CHR ''c'', CHR 0x0A], Str ''d''], m)))) =
       [\<lparr>OutputLine.content = ''a, 1, b'', entryClosed = False\<rparr>,
        \<lparr>OutputLine.content = ''c'', entryClosed = False\<rparr>,
        \<lparr>OutputLine.content = '', d'', entryClosed = False\<rparr>]"
    by (simp add: calls_def getContent_def setSeparator_def
        new_OutputEntry_def render_lines_def new_OutputLine_def Let_def)
qed

text \<open>
  Instances.  An entry with no memo whose content has falsy fields and a text with a
  line feed renders two lines.  Rendered while open and then closed, with plain calls
  only, it keeps returning the lines tagged \<open>False\<close>, which are the lines of a fresh
  computation with the flag set to \<open>False\<close>.  After an update whose function calls
  \<open>getContent()\<close> before it returns \<open>["y"]\<close>, the entry returns the line \<open>"x"\<close> that was
  computed in the state the function saw.
\<close>

theorem getContent_pipeline_witness:
  "contentMemo (new_OutputEntry [Str ''a'', Str [], Other False ''0'',
                                 Str [CHR ''c'', CHR 0x0A, CHR ''d'']]) = None \<and>
   fst (getContent (new_OutputEntry [Str ''a'', Str [], Other False ''0'',
                                     Str [CHR ''c'', CHR 0x0A, CHR ''d'']])) =
     [\<lparr>OutputLine.content = ''a c'', entryClosed = False\<rparr>,
      \<lparr>OutputLine.content = ''d'', entryClosed = False\<rparr>] \<and>
   list_all plain_op [SetSeparator ''-'' None, GetContent, Close] \<and>
   isClosed (fst (calls [SetSeparator ''-'' None, GetContent, Close]
      (new_OutputEntry [Str ''a'', Str [], Other False ''0'', Str [CHR ''c'', CHR 0x0A, CHR ''d'']],
       new_Output))) \<and>
   fst (getContent (fst (calls [SetSeparator ''-'' None, GetContent, Close]
      (new_OutputEntry [Str ''a'', Str [], Other False ''0'', Str [CHR ''c'', CHR 0x0A, CHR ''d'']],
       new_Output)))) =
     [\<lparr>OutputLine.content = ''a-c'', entryClosed = False\<rparr>,
      \<lparr>OutputLine.content = ''d'', entryClosed = False\<rparr>] \<and>
   fst (getContent ((fst (calls [SetSeparator ''-'' None, GetContent, Close]
      (new_OutputEntry [Str ''a'', Str [], Other False ''0'', Str [CHR ''c'', CHR 0x0A, CHR ''d'']],
       new_Output)))\<lparr>contentMemo := None\<rparr>)) =
     [\<lparr>OutputLine.content = ''a-c'', entryClosed = True\<rparr>,
      \<lparr>OutputLine.content = ''d'', entryClosed = True\<rparr>] \<and>
   content (fst (calls [Update (Function (\<lambda>c. Step GetContent (\<lambda>e. Result [Str ''y''])))]
      (new_OutputEntry [Str ''x''], new_Output))) = [Str ''y''] \<and>
   fst (getContent (fst (calls [Update (Function (\<lambda>c. Step GetContent (\<lambda>e. Result [Str ''y''])))]
      (new_OutputEntry [Str ''x''], new_Output)))) =
     [\<lparr>OutputLine.content = ''x'', entryClosed = False\<rparr>] \<and>
   fst (getContent (new_OutputEntry [Str ''x''])) =
     [\<lparr>OutputLine.content = ''x'', entryClosed = False\<rparr>]"
proof -
  have p: "list_all plain_op [SetSeparator ''-'' None, GetContent, Close]"
    by simp
  show ?thesis
    using p
      getContent_pipeline
        [of "new_OutputEntry [Str ''a'', Str [], Other False ''0'',
                              Str [CHR ''c'', CHR 0x0A, CHR ''d'']]"
            "[SetSeparator ''-'' None, GetContent, Close]"
            "[Str ''a'', Str [], Other False ''0'', Str [CHR ''c'', CHR 0x0A, CHR ''d'']]"
            new_Output]
      getContent_pipeline
        [of "new_OutputEntry [Str ''x'']"
            "[Update (Function (\<lambda>c. Step GetContent (\<lambda>e. Result [Str ''y''])))]"
            "[Str ''x'']" new_Output]
    by (simp add: calls_def getContent_def setSeparator_def close_def update_with_def
        new_OutputEntry_def render_lines_def new_OutputLine_def Let_def)
qed


section \<open>Properties of the coordinator\<close>

lemma outEntries_rerender: "outEntries (rerender m) = outEntries m"
  by (simp add: rerender_def)

lemma line_entry:
  "outEntries (line (Fields c) (Some []) this) ! length (outEntries this) =
     close (new_OutputEntry c)"
  by (simp add: line_def with_entry_def Let_def outEntries_rerender)

lemma dline_entry:
  "dline (Fields c) (Some []) this = (h, this') \<Longrightarrow>
     h = length (outEntries this) \<and>
     outEntries this' ! h = (new_OutputEntry c)\<lparr>separator := []\<rparr>"
  by (auto simp: dline_def with_entry_def setSeparator_def Let_def outEntries_rerender
      new_OutputEntry_def)

lemma getContent_fresh:
  "contentMemo e = None \<Longrightarrow>
     map OutputLine.content (fst (getContent e)) =
       js_split_nl (js_join (map js_String (filter truthy (content e))) (separator e))"
  by (simp add: getContent_def render_lines_def new_OutputLine_def Let_def comp_def)

text \<open>
  Claim C10: with an array content and the empty string as separator, the entry that
  \<open>line\<close> creates keeps the default separator of one space, and the entry that \<open>dline\<close>
  creates has the empty separator; the first renders the fields joined with a space, the
  second renders them joined with nothing.  For the content \<open>["a", "b"]\<close> the two render
  \<open>"a b"\<close> and \<open>"ab"\<close>.
\<close>

theorem line_dline_empty_separator:
  "separator (outEntries (line (Fields c) (Some []) this) ! length (outEntries this)) = '' '' \<and>
   separator (outEntries (snd (dline (Fields c) (Some []) this)) !
                fst (dline (Fields c) (Some []) this)) = [] \<and>
   map OutputLine.content
     (fst (getContent (outEntries (line (Fields c) (Some []) this) ! length (outEntries this)))) =
     js_split_nl (js_join (map js_String (filter truthy c)) '' '') \<and>
   map OutputLine.content
     (fst (getContent (outEntries (snd (dline (Fields c) (Some []) this)) !
                        fst (dline (Fields c) (Some []) this)))) =
     js_split_nl (js_join (map js_String (filter truthy c)) []) \<and>
   map OutputLine.content
     (fst (getContent (outEntries (line (Fields [Str ''a'', Str ''b'']) (Some []) new_Output) ! 0))) =
     [''a b''] \<and>
   map OutputLine.content
     (fst (getContent (outEntries (snd (dline (Fields [Str ''a'', Str ''b'']) (Some []) new_Output)) ! 0))) =
     [''ab'']"
proof -
  have l: "outEntries (line (Fields c) (Some []) this) ! length (outEntries this) =
             close (new_OutputEntry c)"
    for c this by (rule line_entry)
  have d: "outEntries (snd (dline (Fields c) (Some []) this)) ! fst (dline (Fields c) (Some []) this)
             = (new_OutputEntry c)\<lparr>separator := []\<rparr>" for c this
    using dline_entry [of c this] by (cases "dline (Fields c) (Some []) this") simp
  have l0: "outEntries (line (Fields c) (Some []) new_Output) ! 0 = close (new_OutputEntry c)" for c
    using l [of c new_Output] by (simp add: new_Output_def)
  have d0: "outEntries (snd (dline (Fields c) (Some []) new_Output)) ! 0 =
              (new_OutputEntry c)\<lparr>separator := []\<rparr>" for c
    using d [of c new_Output] dline_entry [of c new_Output]
    by (cases "dline (Fields c) (Some []) new_Output") (simp add: new_Output_def)
  show ?thesis
    unfolding l d l0 d0
    by (simp add: getContent_fresh close_def new_OutputEntry_def)
qed

text \<open>
  An instance on a coordinator that already holds one entry: the content
  \<open>["x", undefined, "y"]\<close> renders \<open>"x y"\<close> through \<open>line\<close> and \<open>"xy"\<close> through \<open>dline\<close>.
\<close>

theorem line_dline_empty_separator_witness:
  "map OutputLine.content
     (fst (getContent (outEntries (line (Fields [Str ''x'', Undefined, Str ''y'']) (Some [])
                                     (line (Text ''t'') None new_Output)) ! 1))) = [''x y''] \<and>
   map OutputLine.content
     (fst (getContent (outEntries (snd (dline (Fields [Str ''x'', Undefined, Str ''y'']) (Some [])
                                          (line (Text ''t'') None new_Output))) !
                        fst (dline (Fields [Str ''x'', Undefined, Str ''y'']) (Some [])
                                          (line (Text ''t'') None new_Output))))) = [''xy'']"
proof -
  have n: "length (outEntries (line (Text ''t'') None new_Output)) = 1"
    by (simp add: line_def with_entry_def Let_def outEntries_rerender new_Output_def)
  show ?thesis
    using n line_dline_empty_separator
      [of "[Str ''x'', Undefined, Str ''y'']" "line (Text ''t'') None new_Output"]
    by simp
qed

lemma rerender_queued: "isRenderQueued this \<Longrightarrow> rerender this = this"
  by (simp add: rerender_def)

lemma rerender_pow_queued: "isRenderQueued this \<Longrightarrow> (rerender ^^ n) this = this"
  by (induction n) (simp_all add: rerender_queued)

lemma rerender_sets_queued: "isRenderQueued (rerender this)"
  by (simp add: rerender_def)

lemma rerender_pow_idle: "0 < n \<Longrightarrow> (rerender ^^ n) this = rerender this"
proof -
  assume "0 < n"
  then obtain k where n: "n = Suc k" by (cases n) auto
  have "(rerender ^^ Suc k) this = (rerender ^^ k) (rerender this)"
    by (simp add: funpow_swap1)
  also have "\<dots> = rerender this"
    by (rule rerender_pow_queued) (rule rerender_sets_queued)
  finally show ?thesis using n by simp
qed

lemma idle_unchanged:
  "\<not> isRenderQueued this \<Longrightarrow> timeouts this = [] \<Longrightarrow>
     this\<lparr>timeouts := [], isRenderQueued := False\<rparr> = this"
  by (cases this) simp

text \<open>
  Claim C8: a burst of \<open>n \<ge> 1\<close> calls of \<open>_rerender()\<close> while a render is queued changes
  nothing.  Started with no render queued, the burst sets the queued flag and hands
  exactly one callback, with the delay 25, to \<open>setTimeout\<close>; when that callback runs on a
  coordinator that had no other callback pending, the flag is cleared and the throttled
  render function is applied once, to the state from before the burst.
\<close>

theorem rerender_burst_one_render:
  assumes "0 < n"
  shows "(isRenderQueued this \<longrightarrow> (rerender ^^ n) this = this) \<and>
         (\<not> isRenderQueued this \<longrightarrow>
            isRenderQueued ((rerender ^^ n) this) \<and>
            timeouts ((rerender ^^ n) this) = timeouts this @ [25]) \<and>
         (\<not> isRenderQueued this \<and> timeouts this = [] \<longrightarrow>
            fire_timeout rt ((rerender ^^ n) this) = Some (rt this))"
proof (intro conjI impI)
  assume "isRenderQueued this"
  then show "(rerender ^^ n) this = this" by (rule rerender_pow_queued)
next
  assume "\<not> isRenderQueued this"
  then show "isRenderQueued ((rerender ^^ n) this)"
    using assms by (simp add: rerender_pow_idle rerender_def)
next
  assume "\<not> isRenderQueued this"
  then show "timeouts ((rerender ^^ n) this) = timeouts this @ [25]"
    using assms by (simp add: rerender_pow_idle rerender_def)
next
  assume "\<not> isRenderQueued this \<and> timeouts this = []"
  then show "fire_timeout rt ((rerender ^^ n) this) = Some (rt this)"
    using assms
    by (simp add: rerender_pow_idle rerender_def fire_timeout_def timeout_callback_def
        idle_unchanged)
qed

text \<open>
  An instance: three requests on a fresh coordinator leave one pending callback, three
  more while it is pending change nothing, and running the callback (with a throttled
  render that does nothing) gives back the fresh coordinator.
\<close>

theorem rerender_burst_one_render_witness:
  "(0::nat) < 3 \<and> \<not> isRenderQueued new_Output \<and> timeouts new_Output = [] \<and>
   isRenderQueued ((rerender ^^ 3) new_Output) \<and>
   timeouts ((rerender ^^ 3) new_Output) = [25] \<and>
   (rerender ^^ 3) ((rerender ^^ 3) new_Output) = (rerender ^^ 3) new_Output \<and>
   fire_timeout (\<lambda>s. s) ((rerender ^^ 3) new_Output) = Some new_Output"
proof -
  have h: "(0::nat) < 3" by simp
  have i: "\<not> isRenderQueued new_Output \<and> timeouts new_Output = []"
    by (simp add: new_Output_def)
  show ?thesis
    using h i rerender_burst_one_render [OF h, of new_Output "\<lambda>s. s"]
      rerender_burst_one_render [OF h, of "(rerender ^^ 3) new_Output" "\<lambda>s. s"]
    by simp
qed

end
